theory Spec2Isabelle
  imports Main "HOL-Library.Word"
begin

section \<open>Strings and the library functions the plugin calls\<close>

text \<open>
  A Go string is read here as the sequence of its Unicode code points (what
  \<^verbatim>\<open>[]rune(s)\<close> and \<^verbatim>\<open>range s\<close> produce).  For well-formed UTF-8, byte-wise
  concatenation, comparison and \<^verbatim>\<open>strings.HasSuffix\<close> coincide with the same operations
  on code points.  A literal is written \<open>str ''lan''\<close>.
\<close>

type_synonym rune = nat
type_synonym gostring = "rune list"

definition str :: "string \<Rightarrow> gostring" where
  "str cs = map of_char cs"

type_synonym IP = "8 word list"

text \<open>
  The parts of the Go standard library and of the imported packages whose tables or code
  are not part of the plugin are parameters of the model:
  \<^item> \<open>unicodeToLower\<close>: \<^verbatim>\<open>unicode.ToLower\<close> on code points above ASCII;
  \<^item> \<open>unicodeFoldReach\<close>: \<open>unicodeFoldReach sr tr\<close> holds when iterating
    \<^verbatim>\<open>unicode.SimpleFold\<close> from \<open>sr\<close> arrives at \<open>tr\<close> (used by
    \<^verbatim>\<open>strings.EqualFold\<close> for \<open>sr < tr\<close>, \<open>tr\<close> above ASCII);
  \<^item> \<open>ParseIP\<close>: \<^verbatim>\<open>net.ParseIP\<close>, \<open>None\<close> for the nil result;
  \<^item> \<open>IsFQDN\<close>: the FQDN check of the imported validation package.
\<close>

record libs =
  unicodeToLower :: "rune \<Rightarrow> rune"
  unicodeFoldReach :: "rune \<Rightarrow> rune \<Rightarrow> bool"
  ParseIP :: "gostring \<Rightarrow> IP option"
  IsFQDN :: "gostring \<Rightarrow> bool"

text \<open>\<^verbatim>\<open>unicode.ToLower\<close>: the ASCII range is decided without the tables.\<close>

definition toLowerRune :: "libs \<Rightarrow> rune \<Rightarrow> rune" where
  "toLowerRune L r =
     (if r < 128 then (if 65 \<le> r \<and> r \<le> 90 then r + 32 else r)
      else unicodeToLower L r)"

definition ToLower :: "libs \<Rightarrow> gostring \<Rightarrow> gostring" where
  "ToLower L s = map (toLowerRune L) s"

text \<open>
  \<^verbatim>\<open>strings.EqualFold\<close>, one pair of code points at a time: equal, or an ASCII pair
  of an upper-case letter and its lower-case letter, or equivalent under simple folding.
\<close>

definition equalFoldRune :: "libs \<Rightarrow> rune \<Rightarrow> rune \<Rightarrow> bool" where
  "equalFoldRune L a b =
     (let sr = min a b; tr = max a b
      in if tr = sr then True
         else if tr < 128 then 65 \<le> sr \<and> sr \<le> 90 \<and> tr = sr + 32
         else unicodeFoldReach L sr tr)"

fun EqualFold :: "libs \<Rightarrow> gostring \<Rightarrow> gostring \<Rightarrow> bool" where
  "EqualFold L [] [] = True"
| "EqualFold L (sr # s) (tr # t) = (if equalFoldRune L sr tr then EqualFold L s t else False)"
| "EqualFold L [] (tr # t) = False"
| "EqualFold L (sr # s) [] = False"

text \<open>\<^verbatim>\<open>strings.HasSuffix(s, suffix)\<close>.\<close>

definition HasSuffix :: "gostring \<Rightarrow> gostring \<Rightarrow> bool" where
  "HasSuffix s suf = (length suf \<le> length s \<and> drop (length s - length suf) s = suf)"

text \<open>
  \<^verbatim>\<open>strings.FieldsFunc(s, f)\<close>: one pass over the code points; \<open>start\<close> holds the
  field being read (\<open>None\<close> for the library's negative start index), \<open>spans\<close> the
  fields already closed.
\<close>

fun fieldsLoop :: "(rune \<Rightarrow> bool) \<Rightarrow> gostring \<Rightarrow> gostring option \<Rightarrow> gostring list \<Rightarrow> gostring list" where
  "fieldsLoop f [] start spans = (case start of None \<Rightarrow> spans | Some w \<Rightarrow> spans @ [w])"
| "fieldsLoop f (c # s) start spans =
     (if f c then
        (case start of
           Some w \<Rightarrow> fieldsLoop f s None (spans @ [w])
         | None \<Rightarrow> fieldsLoop f s None spans)
      else
        (case start of
           None \<Rightarrow> fieldsLoop f s (Some [c]) spans
         | Some w \<Rightarrow> fieldsLoop f s (Some (w @ [c])) spans))"

definition FieldsFunc :: "gostring \<Rightarrow> (rune \<Rightarrow> bool) \<Rightarrow> gostring list" where
  "FieldsFunc s f = fieldsLoop f s None []"

text \<open>\<^verbatim>\<open>strings.Join(elems, sep)\<close>.\<close>

fun Join :: "gostring list \<Rightarrow> gostring \<Rightarrow> gostring" where
  "Join [] sep = []"
| "Join [e] sep = e"
| "Join (e # es) sep = e @ sep @ Join es sep"

text \<open>A field between separators \<open>d\<close>: not empty, and free of \<open>d\<close>.\<close>

definition isField :: "rune \<Rightarrow> gostring \<Rightarrow> bool" where
  "isField d w = (w \<noteq> [] \<and> d \<notin> set w)"

section \<open>The name sanitizer\<close>

fun isAllowedRune :: "rune list \<Rightarrow> rune \<Rightarrow> bool" where
  "isAllowedRune [] r = False"
| "isAllowedRune (a # allowedRunes) r = (if a = r then True else isAllowedRune allowedRunes r)"

definition allowedRunes :: "rune list" where
  "allowedRunes = str ''abcdefghijklmnopqrstuvwxyz12345679-''"

definition dash :: rune where
  "dash = of_char CHR ''-''"

text \<open>The loop of \<^verbatim>\<open>sanitizeName\<close> over the indices of \<open>r\<close>, writing into the builder \<open>sb\<close>.\<close>

function sanitizeLoop :: "gostring \<Rightarrow> nat \<Rightarrow> nat \<Rightarrow> gostring \<Rightarrow> gostring" where
  "sanitizeLoop r sz i sb =
     (if i < sz then
        (if isAllowedRune allowedRunes (r ! i)
         then sanitizeLoop r sz (i + 1) (sb @ [r ! i])
         else sanitizeLoop r sz (i + 1) (sb @ [dash]))
      else sb)"
  by pat_completeness auto
termination
  by (relation "measure (\<lambda>(r, sz, i, sb). sz - i)") auto

declare sanitizeLoop.simps [simp del]

definition sanitizeName :: "libs \<Rightarrow> gostring \<Rightarrow> gostring" where
  "sanitizeName L s =
     (if s = [] then []
      else
        (let s' = ToLower L s;
             r = s';
             sz = length r;
             sb = sanitizeLoop r sz 0 []
         in Join (FieldsFunc sb (\<lambda>r. r = dash)) (str ''-'')))"


section \<open>Addresses, time and DNS messages\<close>

text \<open>
  \<^verbatim>\<open>net.IP\<close> is a byte slice.  \<^verbatim>\<open>To4\<close> returns the four-byte form of a four-byte
  address or of a sixteen-byte IPv4-mapped address, and nil (\<open>None\<close>) otherwise.
\<close>

definition To4 :: "IP \<Rightarrow> IP option" where
  "To4 ip =
     (if length ip = 4 then Some ip
      else if length ip = 16 \<and> take 10 ip = replicate 10 0 \<and> ip ! 10 = 255 \<and> ip ! 11 = 255
      then Some (drop 12 ip)
      else None)"

text \<open>
  A \<^verbatim>\<open>time.Time\<close> is a count of nanoseconds on the monotonic clock; \<^verbatim>\<open>t.Sub(u)\<close> is a
  \<^verbatim>\<open>time.Duration\<close>, a 64-bit count of nanoseconds that saturates.
\<close>

type_synonym Time = int

definition Sub :: "Time \<Rightarrow> Time \<Rightarrow> int" where
  "Sub t u =
     (let d = t - u
      in if d < - (2 ^ 63) then - (2 ^ 63) else if 2 ^ 63 - 1 < d then 2 ^ 63 - 1 else d)"

text \<open>
  \<^verbatim>\<open>uint32(d.Seconds())\<close>: the duration in seconds with its fraction cut off, as a 32-bit
  unsigned value.  The rounding of the intermediate \<^verbatim>\<open>float64\<close> is not modelled: the
  value is exact whenever the duration is a whole number of seconds or shorter than
  \<open>2 ^ 24\<close> seconds.  A number of seconds outside the range of \<^verbatim>\<open>uint32\<close>, whose
  conversion Go leaves to the implementation, is reduced modulo \<open>2 ^ 32\<close>.
\<close>

definition Seconds_uint32 :: "int \<Rightarrow> 32 word" where
  "Seconds_uint32 d =
     word_of_int (if d < 0 then - ((- d) div 1000000000) else d div 1000000000)"

definition TypeA :: "16 word" where "TypeA = 1"
definition TypeAAAA :: "16 word" where "TypeAAAA = 28"
definition ClassINET :: "16 word" where "ClassINET = 1"

record RR_Header =
  Name :: gostring
  Rrtype :: "16 word"
  Class :: "16 word"
  Ttl :: "32 word"
  Rdlength :: "16 word"

record dns_A =
  A_Hdr :: RR_Header
  A_A :: IP

record dns_AAAA =
  AAAA_Hdr :: RR_Header
  AAAA_AAAA :: IP

datatype RR = RR_A dns_A | RR_AAAA dns_AAAA

record dns_Question =
  Question_Name :: gostring
  Qtype :: "16 word"
  Qclass :: "16 word"

record dns_Msg =
  Question :: "dns_Question list"

section \<open>Configuration, upstream controller and plugin state\<close>

text \<open>
  Modelled from the spec: the \<^verbatim>\<open>config\<close> struct is declared outside \<^verbatim>\<open>names.go\<close>.
  The fields are the ones \<^verbatim>\<open>names.go\<close> reads (the controller's URL and credentials are
  only handed to the upstream client and are left out); \<open>TTL\<close> is a \<^verbatim>\<open>uint32\<close>, the type
  of the header field it is subtracted into.  \<open>Networks\<close> is a Go map: an association
  list read through \<open>map_of\<close>, so that a key has one value.
\<close>

record config =
  TTL :: "32 word"
  Debug :: bool
  Networks :: "(gostring \<times> gostring) list"
  UseNameAsHostname :: bool

text \<open>The values of the \<open>Networks\<close> map, as \<^verbatim>\<open>range p.Config.Networks\<close> visits them.\<close>

definition domains :: "(gostring \<times> gostring) list \<Rightarrow> gostring list" where
  "domains nets = map snd (filter (\<lambda>(k, v). map_of nets k = Some v) nets)"

text \<open>A client entry of the controller, with the four fields the plugin reads.\<close>

record unifi_Client =
  Client_Name :: gostring
  Client_Hostname :: gostring
  Client_IP :: gostring
  Client_Network :: gostring

text \<open>
  The controller, as one refresh sees it: the outcome of creating the client, of listing
  the sites and of listing the clients of those sites (\<open>Inl\<close> is the error).
\<close>

record 's upstream =
  NewUnifi :: "string + unit"
  GetSites :: "string + 's"
  GetClients :: "'s \<Rightarrow> string + unifi_Client list"

datatype error = Annotate string string

record unifinames =
  Config :: config
  aClients :: "dns_A list"
  aaaaClients :: "dns_AAAA list"
  lastUpdate :: Time
  IsReady :: bool

section \<open>The resolver\<close>

fun shouldHandle_loop :: "gostring list \<Rightarrow> gostring \<Rightarrow> bool" where
  "shouldHandle_loop [] name = False"
| "shouldHandle_loop (domain # ds) name =
     (if HasSuffix name domain then True else shouldHandle_loop ds name)"

definition shouldHandle :: "unifinames \<Rightarrow> gostring \<Rightarrow> bool" where
  "shouldHandle p name = shouldHandle_loop (domains (Networks (Config p))) name"

text \<open>
  The two inner loops of \<^verbatim>\<open>resolve\<close>.  \<open>client\<close> is the loop variable, a copy of the
  list element; the TTL is written into the copy, the copy is appended to \<open>rrs\<close>, and
  the loop stops.  The plugin state is passed through, to record what the loop does to it.
\<close>

fun scan_aClients ::
  "libs \<Rightarrow> Time \<Rightarrow> gostring \<Rightarrow> dns_A list \<Rightarrow> unifinames \<Rightarrow> RR list \<Rightarrow> unifinames \<times> RR list" where
  "scan_aClients L now qname [] p rrs = (p, rrs)"
| "scan_aClients L now qname (client # rest) p rrs =
     (if EqualFold L (Name (A_Hdr client)) qname then
        (let client = client\<lparr>A_Hdr := (A_Hdr client)
                        \<lparr>Ttl := TTL (Config p) - Seconds_uint32 (Sub now (lastUpdate p))\<rparr>\<rparr>
         in (p, rrs @ [RR_A client]))
      else scan_aClients L now qname rest p rrs)"

fun scan_aaaaClients ::
  "libs \<Rightarrow> Time \<Rightarrow> gostring \<Rightarrow> dns_AAAA list \<Rightarrow> unifinames \<Rightarrow> RR list \<Rightarrow> unifinames \<times> RR list" where
  "scan_aaaaClients L now qname [] p rrs = (p, rrs)"
| "scan_aaaaClients L now qname (client # rest) p rrs =
     (if EqualFold L (Name (AAAA_Hdr client)) qname then
        (let client = client\<lparr>AAAA_Hdr := (AAAA_Hdr client)
                        \<lparr>Ttl := TTL (Config p) - Seconds_uint32 (Sub now (lastUpdate p))\<rparr>\<rparr>
         in (p, rrs @ [RR_AAAA client]))
      else scan_aaaaClients L now qname rest p rrs)"

text \<open>
  The loop over the questions.  \<open>i\<close> is the index of the question at the head of the
  list; \<open>clock i\<close> is what \<^verbatim>\<open>time.Now()\<close> returns while question \<open>i\<close> is matched.
\<close>

fun resolve_loop ::
  "libs \<Rightarrow> (nat \<Rightarrow> Time) \<Rightarrow> dns_Question list \<Rightarrow> nat \<Rightarrow> unifinames \<Rightarrow> RR list
    \<Rightarrow> unifinames \<times> RR list" where
  "resolve_loop L clock [] i p rrs = (p, rrs)"
| "resolve_loop L clock (question # qs) i p rrs =
     (if Qclass question \<noteq> ClassINET then resolve_loop L clock qs (i + 1) p rrs
      else if Qtype question = TypeA then
        (if shouldHandle p (ToLower L (Question_Name question)) then
           (case scan_aClients L (clock i) (Question_Name question) (aClients p) p rrs of
              (p', rrs') \<Rightarrow> resolve_loop L clock qs (i + 1) p' rrs')
         else resolve_loop L clock qs (i + 1) p rrs)
      else if Qtype question = TypeAAAA then
        (if shouldHandle p (ToLower L (Question_Name question)) then
           (case scan_aaaaClients L (clock i) (Question_Name question) (aaaaClients p) p rrs of
              (p', rrs') \<Rightarrow> resolve_loop L clock qs (i + 1) p' rrs')
         else resolve_loop L clock qs (i + 1) p rrs)
      else resolve_loop L clock qs (i + 1) p rrs)"

text \<open>
  \<^verbatim>\<open>resolve\<close> returns the plugin state it leaves, its boolean result, and the answer
  section of the reply it wrote (\<open>None\<close> when it wrote no reply).
\<close>

definition resolve ::
  "libs \<Rightarrow> (nat \<Rightarrow> Time) \<Rightarrow> unifinames \<Rightarrow> dns_Msg \<Rightarrow> unifinames \<times> bool \<times> RR list option" where
  "resolve L clock p r =
     (if length (Question r) \<le> 0 then (p, False, None)
      else
        (case resolve_loop L clock (Question r) 0 p [] of
           (p', rrs) \<Rightarrow>
             if length rrs > 0 then (p', True, Some rrs) else (p', False, None)))"

section \<open>Building the snapshot\<close>

text \<open>The body of the loop of \<^verbatim>\<open>getClients\<close> over the client entries.\<close>

definition getClients_entry :: "libs \<Rightarrow> unifinames \<Rightarrow> unifi_Client \<Rightarrow> unifinames" where
  "getClients_entry L p entry =
     (let selected = (if UseNameAsHostname (Config p) then Client_Name entry
                      else Client_Hostname entry);
          dns_name = ToLower L (sanitizeName L selected)
      in if selected = [] then p
         else if dns_name = [] then p
         else if IsFQDN L dns_name then p
         else
           (case ParseIP L (Client_IP entry) of
              None \<Rightarrow> p
            | Some ip \<Rightarrow>
                (case map_of (Networks (Config p)) (ToLower L (Client_Network entry)) of
                   None \<Rightarrow> p
                 | Some domain \<Rightarrow>
                     (let hdr = \<lparr>Name = dns_name @ str ''.'' @ domain, Rrtype = 0,
                                 Class = ClassINET, Ttl = 0, Rdlength = 0\<rparr>
                      in if To4 ip \<noteq> None
                         then p\<lparr>aClients := aClients p @
                                  [\<lparr>A_Hdr = hdr\<lparr>Rrtype := TypeA\<rparr>, A_A = ip\<rparr>]\<rparr>
                         else p\<lparr>aaaaClients := aaaaClients p @
                                  [\<lparr>AAAA_Hdr = hdr\<lparr>Rrtype := TypeAAAA\<rparr>, AAAA_AAAA = ip\<rparr>]\<rparr>))))"

fun getClients_loop :: "libs \<Rightarrow> unifi_Client list \<Rightarrow> unifinames \<Rightarrow> unifinames" where
  "getClients_loop L [] p = p"
| "getClients_loop L (entry # clients) p = getClients_loop L clients (getClients_entry L p entry)"

text \<open>\<^verbatim>\<open>getClients\<close> returns its error (\<open>None\<close> for nil) and the plugin state it leaves.\<close>

definition getClients :: "libs \<Rightarrow> 's upstream \<Rightarrow> unifinames \<Rightarrow> error option \<times> unifinames" where
  "getClients L u p =
     (case NewUnifi u of
        Inl err \<Rightarrow> (Some (Annotate err ''coredns-unifi-names: unable to create unifi client''), p)
      | Inr uni \<Rightarrow>
          (case GetSites u of
             Inl err \<Rightarrow> (Some (Annotate err ''coredns-unifi-names: unable to get sites''), p)
           | Inr sites \<Rightarrow>
               (case GetClients u sites of
                  Inl err \<Rightarrow> (Some (Annotate err ''coredns-unifi-names: unable to get clients''), p)
                | Inr clients \<Rightarrow>
                    (None, getClients_loop L clients (p\<lparr>aClients := [], aaaaClients := []\<rparr>)))))"

section \<open>Refreshing\<close>

text \<open>
  One run of the closure \<^verbatim>\<open>update\<close> of the background goroutine, and one call of
  \<^verbatim>\<open>Ready\<close>; \<open>now\<close> is what \<^verbatim>\<open>time.Now()\<close> returns in it.
\<close>

definition update :: "libs \<Rightarrow> 's upstream \<Rightarrow> Time \<Rightarrow> unifinames \<Rightarrow> unifinames" where
  "update L u now p =
     (case getClients L u p of
        (Some err, p') \<Rightarrow> p'
      | (None, p') \<Rightarrow> p'\<lparr>lastUpdate := now\<rparr>)"

definition Ready :: "libs \<Rightarrow> 's upstream \<Rightarrow> Time \<Rightarrow> unifinames \<Rightarrow> unifinames \<times> bool" where
  "Ready L u now p =
     (let p' =
        (if IsReady p = False then
           (let p1 = (case getClients L u p of
                        (Some err, p1) \<Rightarrow> p1\<lparr>IsReady := True\<rparr>
                      | (None, p1) \<Rightarrow> p1);
                p2 = p1\<lparr>lastUpdate := now\<rparr>
            in p2\<lparr>IsReady := True\<rparr>)
         else p)
      in (p', IsReady p'))"

section \<open>Starting the background goroutine\<close>

text \<open>
  The head of \<^verbatim>\<open>ServeDNS\<close>, up to the \<^verbatim>\<open>go\<close> statement, run by several goroutines
  over one plugin instance.  Each goroutine performs, in order, the atomic
  \<^verbatim>\<open>haveRoutine.Load()\<close>, the atomic \<^verbatim>\<open>haveRoutine.Store(true)\<close> and the \<^verbatim>\<open>go\<close>
  statement, the last two only if the load returned false.  The atomic operations of
  different goroutines interleave; a schedule lists which goroutine moves next.
\<close>

datatype pc = AtLoad | AtStore | AtGo | AtResolve

record serving =
  haveRoutine :: bool
  routines :: nat
  pcs :: "nat \<Rightarrow> pc"

definition ServeDNS_step :: "nat \<Rightarrow> serving \<Rightarrow> serving" where
  "ServeDNS_step g s =
     (case pcs s g of
        AtLoad \<Rightarrow> (if \<not> haveRoutine s then s\<lparr>pcs := (pcs s)(g := AtStore)\<rparr>
                   else s\<lparr>pcs := (pcs s)(g := AtResolve)\<rparr>)
      | AtStore \<Rightarrow> s\<lparr>haveRoutine := True, pcs := (pcs s)(g := AtGo)\<rparr>
      | AtGo \<Rightarrow> s\<lparr>routines := routines s + 1, pcs := (pcs s)(g := AtResolve)\<rparr>
      | AtResolve \<Rightarrow> s)"

fun ServeDNS_run :: "nat list \<Rightarrow> serving \<Rightarrow> serving" where
  "ServeDNS_run [] s = s"
| "ServeDNS_run (g # schedule) s = ServeDNS_run schedule (ServeDNS_step g s)"

definition idle :: serving where
  "idle = \<lparr>haveRoutine = False, routines = 0, pcs = (\<lambda>g. AtLoad)\<rparr>"


section \<open>The resolver's answer to one question, as a function\<close>

text \<open>
  What the body of the question loop adds to the answers for one question: nothing, or
  the first cached record whose name matches, with the TTL rewritten.  The loops above
  are compared with it below.
\<close>

definition question_answers :: "libs \<Rightarrow> Time \<Rightarrow> unifinames \<Rightarrow> dns_Question \<Rightarrow> RR list" where
  "question_answers L now p q =
     (if Qclass q = ClassINET \<and> Qtype q = TypeA \<and> shouldHandle p (ToLower L (Question_Name q)) then
        (case find (\<lambda>c. EqualFold L (Name (A_Hdr c)) (Question_Name q)) (aClients p) of
           None \<Rightarrow> []
         | Some c \<Rightarrow>
             [RR_A (c\<lparr>A_Hdr := (A_Hdr c)
                      \<lparr>Ttl := TTL (Config p) - Seconds_uint32 (Sub now (lastUpdate p))\<rparr>\<rparr>)])
      else if Qclass q = ClassINET \<and> Qtype q = TypeAAAA
              \<and> shouldHandle p (ToLower L (Question_Name q)) then
        (case find (\<lambda>c. EqualFold L (Name (AAAA_Hdr c)) (Question_Name q)) (aaaaClients p) of
           None \<Rightarrow> []
         | Some c \<Rightarrow>
             [RR_AAAA (c\<lparr>AAAA_Hdr := (AAAA_Hdr c)
                      \<lparr>Ttl := TTL (Config p) - Seconds_uint32 (Sub now (lastUpdate p))\<rparr>\<rparr>)])
      else [])"

section \<open>Sample collaborators for concrete runs\<close>

text \<open>
  Stand-ins for the library parameters, used where a run is evaluated on concrete data:
  the two code points above ASCII whose lower case is an ASCII letter (the Kelvin sign
  and the dotted capital I), a parser of dotted-decimal IPv4 literals that returns the
  sixteen-byte form, and an FQDN check that asks for a dot in the name.
\<close>

fun splitDots :: "gostring \<Rightarrow> gostring \<Rightarrow> gostring list" where
  "splitDots [] cur = [cur]"
| "splitDots (c # s) cur = (if c = 46 then cur # splitDots s [] else splitDots s (cur @ [c]))"

fun decimal :: "gostring \<Rightarrow> nat \<Rightarrow> nat option" where
  "decimal [] n = Some n"
| "decimal (c # s) n = (if 48 \<le> c \<and> c \<le> 57 then decimal s (10 * n + (c - 48)) else None)"

definition octet :: "gostring \<Rightarrow> 8 word option" where
  "octet f =
     (if f = [] \<or> 3 < length f \<or> (1 < length f \<and> hd f = 48) then None
      else (case decimal f 0 of
              None \<Rightarrow> None
            | Some n \<Rightarrow> if n \<le> 255 then Some (of_nat n) else None))"

definition parseIPv4 :: "gostring \<Rightarrow> IP option" where
  "parseIPv4 s =
     (case map octet (splitDots s []) of
        [Some a, Some b, Some c, Some d] \<Rightarrow> Some (replicate 10 0 @ [255, 255, a, b, c, d])
      | _ \<Rightarrow> None)"

definition sampleLibs :: libs where
  "sampleLibs =
     \<lparr>unicodeToLower = (\<lambda>r. if r = 8490 then 107 else if r = 304 then 105 else r),
      unicodeFoldReach = (\<lambda>sr tr. (sr = 75 \<or> sr = 107) \<and> tr = 8490),
      ParseIP = parseIPv4,
      IsFQDN = (\<lambda>s. 46 \<in> set s)\<rparr>"

definition sampleUpstream :: "unifi_Client list \<Rightarrow> unit upstream" where
  "sampleUpstream clients =
     \<lparr>NewUnifi = Inr (), GetSites = Inr (), GetClients = (\<lambda>sites. Inr clients)\<rparr>"

definition failingUpstream :: "unit upstream" where
  "failingUpstream =
     \<lparr>NewUnifi = Inr (), GetSites = Inl ''connection refused'',
      GetClients = (\<lambda>sites. Inr [])\<rparr>"

definition sampleConfig :: "gostring \<Rightarrow> config" where
  "sampleConfig domain =
     \<lparr>TTL = 300, Debug = False, Networks = [(str ''lan'', domain)], UseNameAsHostname = False\<rparr>"

definition freshPlugin :: "gostring \<Rightarrow> unifinames" where
  "freshPlugin domain =
     \<lparr>Config = sampleConfig domain, aClients = [], aaaaClients = [], lastUpdate = 0,
      IsReady = False\<rparr>"

definition tvClient :: unifi_Client where
  "tvClient =
     \<lparr>Client_Name = [], Client_Hostname = str ''Living Room TV'',
      Client_IP = str ''192.168.1.20'', Client_Network = str ''lan''\<rparr>"

definition tvQuery :: dns_Msg where
  "tvQuery =
     \<lparr>Question = [\<lparr>Question_Name = str ''living-room-tv.home.arpa.'', Qtype = TypeA,
                    Qclass = ClassINET\<rparr>]\<rparr>"

definition tvRecord :: "32 word \<Rightarrow> dns_A" where
  "tvRecord ttl =
     \<lparr>A_Hdr = \<lparr>Name = str ''living-room-tv.home.arpa.'', Rrtype = TypeA, Class = ClassINET,
               Ttl = ttl, Rdlength = 0\<rparr>,
      A_A = replicate 10 0 @ [255, 255, 192, 168, 1, 20]\<rparr>"

definition printerClient :: unifi_Client where
  "printerClient =
     \<lparr>Client_Name = str ''Printer'', Client_Hostname = [],
      Client_IP = str ''192.168.1.30'', Client_Network = str ''lan''\<rparr>"

definition cameraClient :: unifi_Client where
  "cameraClient =
     \<lparr>Client_Name = [], Client_Hostname = str ''camera'',
      Client_IP = str ''not-an-ip'', Client_Network = str ''lan''\<rparr>"

definition guestClient :: unifi_Client where
  "guestClient =
     \<lparr>Client_Name = [], Client_Hostname = str ''phone'',
      Client_IP = str ''10.0.0.7'', Client_Network = str ''guest''\<rparr>"

text \<open>
  A plugin whose cache holds the television's record, last refreshed at second 100, and
  the same cache with a record under a domain that is not served.
\<close>

definition stalePlugin :: unifinames where
  "stalePlugin = (freshPlugin (str ''home.arpa.''))
     \<lparr>aClients := [tvRecord 0], lastUpdate := 100000000000\<rparr>"

definition strayPlugin :: unifinames where
  "strayPlugin = stalePlugin
     \<lparr>aClients := [(tvRecord 0)\<lparr>A_Hdr := (A_Hdr (tvRecord 0))
                        \<lparr>Name := str ''living-room-tv.example.com.''\<rparr>\<rparr>]\<rparr>"

definition otherQuery :: dns_Msg where
  "otherQuery =
     \<lparr>Question = [\<lparr>Question_Name = str ''Living-Room-TV.example.com.'', Qtype = TypeA,
                    Qclass = ClassINET\<rparr>]\<rparr>"

definition noQuestions :: dns_Msg where
  "noQuestions = \<lparr>Question = []\<rparr>"

text \<open>A clock that reads \<open>s\<close> seconds whenever it is asked.\<close>

definition clockAt :: "int \<Rightarrow> nat \<Rightarrow> Time" where
  "clockAt s i = s * 1000000000"


section \<open>Properties of the sanitizer\<close>

lemma isAllowedRune_set: "isAllowedRune xs r = (r \<in> set xs)"
  by (induction xs) auto

lemma dash_eval: "dash = 45"
  by (simp add: dash_def)

lemma str_dash: "str ''-'' = [dash]"
  by (simp add: str_def dash_def)

lemma allowed_range:
  "r \<in> set allowedRunes \<longleftrightarrow> (97 \<le> r \<and> r \<le> 122) \<or> (49 \<le> r \<and> r \<le> 55) \<or> r = 57 \<or> r = 45"
  unfolding allowedRunes_def str_def by (simp; arith)

lemma sanitizeLoop_map:
  "i \<le> length r \<Longrightarrow>
   sanitizeLoop r (length r) i sb =
     sb @ map (\<lambda>c. if isAllowedRune allowedRunes c then c else dash) (drop i r)"
proof (induction r "length r" i sb rule: sanitizeLoop.induct)
  case (1 r i sb)
  show ?case
  proof (cases "i < length r")
    case True
    then have d: "drop i r = r ! i # drop (Suc i) r"
      by (simp add: Cons_nth_drop_Suc)
    from True have le: "i + 1 \<le> length r" by simp
    show ?thesis
      using True "1.hyps"(1)[OF True _ le] "1.hyps"(2)[OF True _ le]
      by (subst sanitizeLoop.simps) (simp add: d)
  next
    case False
    with "1.prems" show ?thesis
      by (subst sanitizeLoop.simps) simp
  qed
qed


lemma sanitizeName_map:
  "sanitizeName L s =
     Join (FieldsFunc (map (\<lambda>c. if c \<in> set allowedRunes then c else dash) (ToLower L s))
             (\<lambda>r. r = dash)) [dash]"
proof (cases "s = []")
  case True
  then show ?thesis
    by (simp add: sanitizeName_def ToLower_def FieldsFunc_def)
next
  case False
  have loop: "sanitizeLoop (ToLower L s) (length (ToLower L s)) 0 [] =
      map (\<lambda>c. if c \<in> set allowedRunes then c else dash) (ToLower L s)"
    using sanitizeLoop_map [of 0 "ToLower L s" "[]"] by (simp add: isAllowedRune_set)
  from False have "sanitizeName L s =
      Join (FieldsFunc (sanitizeLoop (ToLower L s) (length (ToLower L s)) 0 []) (\<lambda>r. r = dash))
        (str ''-'')"
    unfolding sanitizeName_def Let_def by (rule if_not_P)
  then show ?thesis
    unfolding loop str_dash .
qed

lemma isField_snoc: "c \<noteq> d \<Longrightarrow> isField d [c]"
  "isField d w \<Longrightarrow> c \<noteq> d \<Longrightarrow> isField d (w @ [c])"
  by (simp_all add: isField_def)

lemma fieldsLoop_fields:
  "list_all (isField d) spans \<Longrightarrow>
   (case start of None \<Rightarrow> True | Some w \<Rightarrow> isField d w) \<Longrightarrow>
   list_all (isField d) (fieldsLoop (\<lambda>r. r = d) s start spans)"
proof (induction s arbitrary: start spans)
  case Nil
  then show ?case by (cases start) simp_all
next
  case (Cons c s)
  show ?case
  proof (cases start)
    case None
    show ?thesis
    proof (cases "c = d")
      case True
      with None Cons.prems(1) Cons.IH [of spans None] show ?thesis by simp
    next
      case False
      with None Cons.prems(1) Cons.IH [of spans "Some [c]"] show ?thesis
        by (simp add: isField_snoc)
    qed
  next
    case (Some w)
    show ?thesis
    proof (cases "c = d")
      case True
      with Some Cons.prems Cons.IH [of "spans @ [w]" None] show ?thesis by simp
    next
      case False
      with Some Cons.prems Cons.IH [of spans "Some (w @ [c])"] show ?thesis
        by (simp add: isField_snoc)
    qed
  qed
qed

lemma fieldsLoop_chars:
  "set (concat (fieldsLoop f s start spans)) \<subseteq>
     set s \<union> set (concat spans) \<union> (case start of None \<Rightarrow> {} | Some w \<Rightarrow> set w)"
proof (induction s arbitrary: start spans)
  case Nil
  then show ?case by (cases start) simp_all
next
  case (Cons c s)
  show ?case
  proof (cases start)
    case None
    show ?thesis
    proof (cases "f c")
      case True
      with None Cons.IH [of None spans] show ?thesis by auto
    next
      case False
      with None Cons.IH [of "Some [c]" spans] show ?thesis by auto
    qed
  next
    case (Some w)
    show ?thesis
    proof (cases "f c")
      case True
      with Some Cons.IH [of None "spans @ [w]"] show ?thesis by auto
    next
      case False
      with Some Cons.IH [of "Some (w @ [c])" spans] show ?thesis by auto
    qed
  qed
qed

lemma FieldsFunc_fields: "list_all (isField d) (FieldsFunc s (\<lambda>r. r = d))"
  unfolding FieldsFunc_def by (rule fieldsLoop_fields) simp_all

lemma FieldsFunc_chars: "set (concat (FieldsFunc s f)) \<subseteq> set s"
  unfolding FieldsFunc_def using fieldsLoop_chars [of f s None "[]"] by simp

lemma Join_chars: "set (Join fs sep) \<subseteq> set (concat fs) \<union> set sep"
  by (induction fs sep rule: Join.induct) auto

lemma Join_Nil_iff:
  "list_all (isField d) fs \<Longrightarrow> Join fs sep = [] \<longleftrightarrow> fs = []"
  by (induction fs sep rule: Join.induct) (simp_all add: isField_def)

lemma Join_hd:
  "list_all (isField d) fs \<Longrightarrow> fs \<noteq> [] \<Longrightarrow> hd (Join fs sep) = hd (hd fs)"
  by (induction fs sep rule: Join.induct) (simp_all add: isField_def)

lemma Join_last:
  "list_all (isField d) fs \<Longrightarrow> fs \<noteq> [] \<Longrightarrow> last (Join fs sep) = last (last fs)"
proof (induction fs sep rule: Join.induct)
  case (3 e v va sep)
  then have "Join (v # va) sep \<noteq> []"
    using Join_Nil_iff [of d "v # va" sep] by simp
  with 3 show ?case by simp
qed simp_all

lemma Join_no_leading:
  assumes "list_all (isField d) fs"
  shows "Join fs [d] \<noteq> d # t"
proof (cases fs)
  case Nil
  then show ?thesis by simp
next
  case (Cons e es)
  with assms have "hd (Join fs [d]) = hd e" by (simp add: Join_hd [of d])
  moreover from Cons assms have "e \<noteq> []" "d \<notin> set e" by (simp_all add: isField_def)
  then have "hd e \<noteq> d" using hd_in_set [of e] by blast
  ultimately show ?thesis by auto
qed

lemma Join_no_trailing:
  assumes "list_all (isField d) fs"
  shows "Join fs [d] \<noteq> t @ [d]"
proof (cases "fs = []")
  case True
  then show ?thesis by simp
next
  case False
  with assms have "last (Join fs [d]) = last (last fs)" by (simp add: Join_last [of d])
  moreover from False assms have "isField d (last fs)"
    using last_in_set [of fs] by (simp add: list_all_iff)
  then have "last (last fs) \<noteq> d"
    using last_in_set [of "last fs"] unfolding isField_def by blast
  ultimately show ?thesis by auto
qed

lemma Join_no_double:
  "list_all (isField d) fs \<Longrightarrow> Join fs [d] \<noteq> u @ [d, d] @ v"
proof (induction fs "[d]" arbitrary: u rule: Join.induct)
  case 1
  then show ?case by simp
next
  case (2 e)
  then show ?case by (auto simp: isField_def)
next
  case (3 e e' es)
  let ?J = "Join (e' # es) [d]"
  have ok': "list_all (isField d) (e' # es)" using 3(2) by simp
  have e: "d \<notin> set e" using 3(2) by (simp add: isField_def)
  show ?case
  proof
    assume "Join (e # e' # es) [d] = u @ [d, d] @ v"
    then have eq: "e @ d # ?J = u @ d # d # v" by simp
    then obtain t where
      "(e = u @ t \<and> t @ d # ?J = d # d # v) \<or> (e @ t = u \<and> d # ?J = t @ d # d # v)"
      unfolding append_eq_append_conv2 by blast
    then show False
    proof
      assume A: "e = u @ t \<and> t @ d # ?J = d # d # v"
      show False
      proof (cases t)
        case Nil
        with A have "?J = d # v" by simp
        with Join_no_leading [OF ok'] show False by blast
      next
        case (Cons a t')
        with A have "a = d" by simp
        with Cons A e show False by simp
      qed
    next
      assume B: "e @ t = u \<and> d # ?J = t @ d # d # v"
      show False
      proof (cases t)
        case Nil
        with B have "?J = d # v" by simp
        with Join_no_leading [OF ok'] show False by blast
      next
        case (Cons a t')
        with B have "?J = t' @ [d, d] @ v" by auto
        with 3(1) [OF ok'] show False by blast
      qed
    qed
  qed
qed

lemma fieldsLoop_run:
  "d \<notin> set e \<Longrightarrow>
   fieldsLoop (\<lambda>r. r = d) (e @ s) (Some w) spans = fieldsLoop (\<lambda>r. r = d) s (Some (w @ e)) spans"
proof (induction e arbitrary: w)
  case Nil
  show ?case by simp
next
  case (Cons c e)
  then have "c \<noteq> d" "d \<notin> set e" by auto
  with Cons.IH [of "w @ [c]"] show ?case by simp
qed

lemma fieldsLoop_field:
  assumes "isField d e"
  shows "fieldsLoop (\<lambda>r. r = d) (e @ s) None spans = fieldsLoop (\<lambda>r. r = d) s (Some e) spans"
proof (cases e)
  case Nil
  with assms show ?thesis by (simp add: isField_def)
next
  case (Cons c e')
  with assms have "c \<noteq> d" "d \<notin> set e'" by (auto simp: isField_def)
  with Cons fieldsLoop_run [of d e' s "[c]" spans] show ?thesis by simp
qed

lemma fieldsLoop_Join:
  "list_all (isField d) fs \<Longrightarrow>
   fieldsLoop (\<lambda>r. r = d) (Join fs [d]) None spans = spans @ fs"
proof (induction fs "[d]" arbitrary: spans rule: Join.induct)
  case 1
  then show ?case by simp
next
  case (2 e)
  then show ?case
    using fieldsLoop_field [of d e "[]" spans] by simp
next
  case (3 e e' es)
  have "fieldsLoop (\<lambda>r. r = d) (Join (e # e' # es) [d]) None spans
        = fieldsLoop (\<lambda>r. r = d) (d # Join (e' # es) [d]) (Some e) spans"
    using 3(2) fieldsLoop_field [of d e "d # Join (e' # es) [d]" spans] by simp
  also have "\<dots> = fieldsLoop (\<lambda>r. r = d) (Join (e' # es) [d]) None (spans @ [e])"
    by simp
  also have "\<dots> = (spans @ [e]) @ (e' # es)"
    using 3(1) [of "spans @ [e]"] 3(2) by simp
  finally show ?case by simp
qed


lemma dash_allowed: "dash \<in> set allowedRunes"
  by (simp add: allowed_range dash_eval)

lemma sanitizeName_allowed: "set (sanitizeName L s) \<subseteq> set allowedRunes"
proof -
  let ?m = "map (\<lambda>c. if c \<in> set allowedRunes then c else dash) (ToLower L s)"
  have m: "set ?m \<subseteq> set allowedRunes"
    using dash_allowed by auto
  have "set (sanitizeName L s) \<subseteq> set (concat (FieldsFunc ?m (\<lambda>r. r = dash))) \<union> set [dash]"
    unfolding sanitizeName_map by (rule Join_chars)
  also have "\<dots> \<subseteq> set ?m \<union> set [dash]"
    using FieldsFunc_chars [of ?m "\<lambda>r. r = dash"] by blast
  also have "\<dots> \<subseteq> set allowedRunes"
    using m dash_allowed by simp
  finally show ?thesis .
qed

lemma allowed_lower: "c \<in> set allowedRunes \<Longrightarrow> toLowerRune L c = c"
  unfolding allowed_range toLowerRune_def by auto

lemma ToLower_allowed: "set s \<subseteq> set allowedRunes \<Longrightarrow> ToLower L s = s"
  unfolding ToLower_def by (induction s) (simp_all add: allowed_lower)

lemma map_allowed:
  "set s \<subseteq> set allowedRunes \<Longrightarrow> map (\<lambda>c. if c \<in> set allowedRunes then c else dash) s = s"
  by (induction s) simp_all

text \<open>
  C4: for every string \<open>s\<close>, the sanitized name contains only characters of the
  allow-list \<^verbatim>\<open>abcdefghijklmnopqrstuvwxyz12345679-\<close>, hence only characters of
  \<^verbatim>\<open>[a-z0-9-]\<close> and neither \<^verbatim>\<open>0\<close> nor \<^verbatim>\<open>8\<close>; it contains no \<^verbatim>\<open>--\<close>, and no
  \<^verbatim>\<open>-\<close> at its start or end; and it is obtained by replacing every character of the
  lower-cased input outside the allow-list by \<^verbatim>\<open>-\<close>, then splitting at \<^verbatim>\<open>-\<close> and joining the
  non-empty fields with a single \<^verbatim>\<open>-\<close>.
\<close>

theorem sanitizeName_output:
  "set (sanitizeName L s) \<subseteq> set (str ''abcdefghijklmnopqrstuvwxyz12345679-'')
   \<and> set (sanitizeName L s) \<subseteq> set (str ''abcdefghijklmnopqrstuvwxyz0123456789-'')
   \<and> of_char CHR ''0'' \<notin> set (sanitizeName L s)
   \<and> of_char CHR ''8'' \<notin> set (sanitizeName L s)
   \<and> (\<nexists>u v. sanitizeName L s = u @ str ''--'' @ v)
   \<and> (\<nexists>t. sanitizeName L s = str ''-'' @ t)
   \<and> (\<nexists>t. sanitizeName L s = t @ str ''-'')
   \<and> sanitizeName L s =
       Join (FieldsFunc
              (map (\<lambda>c. if isAllowedRune allowedRunes c then c else of_char CHR ''-'') (ToLower L s))
              (\<lambda>r. r = of_char CHR ''-'')) (str ''-'')"
proof -
  let ?out = "sanitizeName L s"
  let ?fs = "FieldsFunc (map (\<lambda>c. if c \<in> set allowedRunes then c else dash) (ToLower L s))
               (\<lambda>r. r = dash)"
  have fs: "list_all (isField dash) ?fs" by (rule FieldsFunc_fields)
  have out: "?out = Join ?fs [dash]" by (rule sanitizeName_map)
  have a: "set ?out \<subseteq> set allowedRunes" by (rule sanitizeName_allowed)
  then have 1: "set ?out \<subseteq> set (str ''abcdefghijklmnopqrstuvwxyz12345679-'')"
    by (simp add: allowedRunes_def)
  have "of_char CHR ''0'' \<notin> set allowedRunes \<and> of_char CHR ''8'' \<notin> set allowedRunes"
    by (simp add: allowed_range)
  with a have 3: "of_char CHR ''0'' \<notin> set ?out" and 4: "of_char CHR ''8'' \<notin> set ?out"
    by blast+
  have "set allowedRunes \<subseteq> set (str ''abcdefghijklmnopqrstuvwxyz0123456789-'')"
    unfolding allowedRunes_def str_def by simp
  with a have 2: "set ?out \<subseteq> set (str ''abcdefghijklmnopqrstuvwxyz0123456789-'')"
    by blast
  have dd: "str ''--'' = [dash, dash]" by (simp add: str_def dash_def)
  have 5: "\<nexists>u v. ?out = u @ str ''--'' @ v"
    unfolding out dd using Join_no_double [OF fs] by blast
  have 6: "\<nexists>t. ?out = str ''-'' @ t"
    unfolding out str_dash using Join_no_leading [OF fs] by simp
  have 7: "\<nexists>t. ?out = t @ str ''-''"
    unfolding out str_dash using Join_no_trailing [OF fs] by simp
  have 8: "?out = Join (FieldsFunc
              (map (\<lambda>c. if isAllowedRune allowedRunes c then c else of_char CHR ''-'') (ToLower L s))
              (\<lambda>r. r = of_char CHR ''-'')) (str ''-'')"
    unfolding isAllowedRune_set str_dash dash_def [symmetric] by (rule sanitizeName_map)
  from 1 2 3 4 5 6 7 8 show ?thesis by blast
qed

text \<open>
  C5: the sanitizer is idempotent: sanitizing a sanitized name returns it unchanged.
\<close>

theorem sanitizeName_idempotent: "sanitizeName L (sanitizeName L s) = sanitizeName L s"
proof -
  let ?g = "\<lambda>c. if c \<in> set allowedRunes then c else dash"
  let ?fs = "FieldsFunc (map ?g (ToLower L s)) (\<lambda>r. r = dash)"
  let ?out = "sanitizeName L s"
  have fs: "list_all (isField dash) ?fs" by (rule FieldsFunc_fields)
  have out: "?out = Join ?fs [dash]" by (rule sanitizeName_map)
  have a: "set ?out \<subseteq> set allowedRunes" by (rule sanitizeName_allowed)
  have "sanitizeName L ?out = Join (FieldsFunc (map ?g (ToLower L ?out)) (\<lambda>r. r = dash)) [dash]"
    by (rule sanitizeName_map)
  also have "map ?g (ToLower L ?out) = ?out"
    using a by (simp add: ToLower_allowed map_allowed)
  also have "FieldsFunc ?out (\<lambda>r. r = dash) = ?fs"
    unfolding out
    using fieldsLoop_Join [OF fs, of "[]"]
    by (simp add: FieldsFunc_def [of "Join ?fs [dash]"])
  also have "Join ?fs [dash] = ?out" by (simp add: out)
  finally show ?thesis .
qed

text \<open>Two runs of the sanitizer.\<close>

lemma sanitizeName_example: "sanitizeName L (str ''Living Room TV'') = str ''living-room-tv''"
  by (simp add: sanitizeName_map ToLower_def toLowerRune_def allowed_range str_def dash_eval
      FieldsFunc_def)

lemma sanitizeName_example_digits: "sanitizeName L (str ''Host-08_A1'') = str ''host-a1''"
  by (simp add: sanitizeName_map ToLower_def toLowerRune_def allowed_range str_def dash_eval
      FieldsFunc_def)



section \<open>The resolver as a function of the cache\<close>

text \<open>
  The inner loops return what \<open>find\<close> returns, and the question loop appends
  \<open>question_answers\<close> for each question in turn.
\<close>

lemma scan_aClients_find:
  "scan_aClients L now qname cs p rrs =
     (p, rrs @ (case find (\<lambda>c. EqualFold L (Name (A_Hdr c)) qname) cs of
                  None \<Rightarrow> []
                | Some c \<Rightarrow>
                    [RR_A (c\<lparr>A_Hdr := (A_Hdr c)
                       \<lparr>Ttl := TTL (Config p) - Seconds_uint32 (Sub now (lastUpdate p))\<rparr>\<rparr>)]))"
  by (induction cs) (simp_all add: Let_def)

lemma scan_aaaaClients_find:
  "scan_aaaaClients L now qname cs p rrs =
     (p, rrs @ (case find (\<lambda>c. EqualFold L (Name (AAAA_Hdr c)) qname) cs of
                  None \<Rightarrow> []
                | Some c \<Rightarrow>
                    [RR_AAAA (c\<lparr>AAAA_Hdr := (AAAA_Hdr c)
                       \<lparr>Ttl := TTL (Config p) - Seconds_uint32 (Sub now (lastUpdate p))\<rparr>\<rparr>)]))"
  by (induction cs) (simp_all add: Let_def)

lemma TypeA_neq_TypeAAAA: "TypeA \<noteq> TypeAAAA"
  by (simp add: TypeA_def TypeAAAA_def)

lemma resolve_loop_step:
  "resolve_loop L clock (q # qs) i p rrs =
     resolve_loop L clock qs (Suc i) p (rrs @ question_answers L (clock i) p q)"
  using TypeA_neq_TypeAAAA
  by (simp add: question_answers_def scan_aClients_find scan_aaaaClients_find)

lemma resolve_loop_answers:
  "resolve_loop L clock qs i p rrs =
     (p, rrs @ concat (map (\<lambda>(j, q). question_answers L (clock j) p q)
                         (zip [i ..< i + length qs] qs)))"
proof (induction qs arbitrary: i rrs)
  case Nil
  show ?case by simp
next
  case (Cons q qs)
  have "[i ..< i + length (q # qs)] = i # [Suc i ..< Suc i + length qs]"
    by (simp add: upt_rec)
  then show ?case
    unfolding resolve_loop_step Cons.IH by simp
qed

lemma resolve_answers:
  "resolve L clock p r =
     (let rrs = concat (map (\<lambda>(j, q). question_answers L (clock j) p q)
                          (zip [0 ..< length (Question r)] (Question r)))
      in if rrs = [] then (p, False, None) else (p, True, Some rrs))"
  by (cases "Question r") (simp_all add: resolve_def resolve_loop_answers Let_def del: resolve_loop.simps)

text \<open>
  C9: answering a query leaves the plugin state as it was: the record lists, and so the
  TTL field of every cached record, are the same after \<^verbatim>\<open>resolve\<close> as before, for
  every query, cache and clock.
\<close>

theorem resolve_keeps_cache:
  "fst (resolve L clock p r) = p
   \<and> aClients (fst (resolve L clock p r)) = aClients p
   \<and> aaaaClients (fst (resolve L clock p r)) = aaaaClients p
   \<and> map (\<lambda>c. Ttl (A_Hdr c)) (aClients (fst (resolve L clock p r))) = map (\<lambda>c. Ttl (A_Hdr c)) (aClients p)
   \<and> map (\<lambda>c. Ttl (AAAA_Hdr c)) (aaaaClients (fst (resolve L clock p r)))
       = map (\<lambda>c. Ttl (AAAA_Hdr c)) (aaaaClients p)"
proof -
  have "fst (resolve L clock p r) = p"
    by (simp add: resolve_answers Let_def)
  then show ?thesis by simp
qed

section \<open>Names outside the served suffixes\<close>

lemma set_domains: "set (domains nets) = ran (map_of nets)"
proof
  show "set (domains nets) \<subseteq> ran (map_of nets)"
    by (auto simp: domains_def ran_def)
  show "ran (map_of nets) \<subseteq> set (domains nets)"
  proof
    fix v assume "v \<in> ran (map_of nets)"
    then obtain k where k: "map_of nets k = Some v" by (auto simp: ran_def)
    then have "(k, v) \<in> set nets" by (rule map_of_SomeD)
    with k show "v \<in> set (domains nets)"
      by (force simp: domains_def)
  qed
qed

lemma shouldHandle_loop_iff: "shouldHandle_loop ds name \<longleftrightarrow> (\<exists>domain \<in> set ds. HasSuffix name domain)"
  by (induction ds) simp_all

lemma shouldHandle_iff:
  "shouldHandle p name \<longleftrightarrow> (\<exists>domain \<in> ran (map_of (Networks (Config p))). HasSuffix name domain)"
  by (simp add: shouldHandle_def shouldHandle_loop_iff set_domains)

lemma HasSuffix_iff: "HasSuffix s suf \<longleftrightarrow> (\<exists>pre. s = pre @ suf)"
proof
  assume "HasSuffix s suf"
  then have "s = take (length s - length suf) s @ suf"
    unfolding HasSuffix_def by (metis append_take_drop_id)
  then show "\<exists>pre. s = pre @ suf" ..
next
  assume "\<exists>pre. s = pre @ suf"
  then show "HasSuffix s suf" by (auto simp: HasSuffix_def)
qed

lemma unhandled_no_answers:
  "\<not> shouldHandle p (ToLower L (Question_Name q)) \<Longrightarrow> question_answers L now p q = []"
  by (simp add: question_answers_def)

text \<open>
  C8: a query with no question is not answered; and a query is not answered when the
  lower-cased name of each of its questions ends with none of the configured domains,
  whatever the cache holds.  No reply is written in either case.
\<close>

theorem resolve_falls_through:
  "(length (Question r) = 0 \<longrightarrow> snd (resolve L clock p r) = (False, None))
   \<and> ((\<forall>q \<in> set (Question r). \<forall>domain \<in> ran (map_of (Networks (Config p))).
          \<not> HasSuffix (ToLower L (Question_Name q)) domain)
        \<longrightarrow> snd (resolve L clock p r) = (False, None))"
proof (intro conjI impI)
  assume "length (Question r) = 0"
  then show "snd (resolve L clock p r) = (False, None)"
    by (simp add: resolve_def)
next
  assume out: "\<forall>q \<in> set (Question r). \<forall>domain \<in> ran (map_of (Networks (Config p))).
          \<not> HasSuffix (ToLower L (Question_Name q)) domain"
  have "concat (map (\<lambda>(j, q). question_answers L (clock j) p q) jqs) = []"
    if "snd ` set jqs \<subseteq> set (Question r)" for jqs
    using that
  proof (induction jqs)
    case Nil
    show ?case by simp
  next
    case (Cons jq jqs)
    obtain j q where jq: "jq = (j, q)" by (cases jq)
    with Cons.prems have "q \<in> set (Question r)" by simp
    with out have "\<not> shouldHandle p (ToLower L (Question_Name q))"
      unfolding shouldHandle_iff by blast
    then have "question_answers L (clock j) p q = []" by (rule unhandled_no_answers)
    moreover have "concat (map (\<lambda>(j, q). question_answers L (clock j) p q) jqs) = []"
      using Cons.IH Cons.prems by simp
    ultimately show ?case using jq by simp
  qed
  moreover have "snd ` set (zip [0 ..< length (Question r)] (Question r)) \<subseteq> set (Question r)"
    by (auto dest: set_zip_rightD)
  ultimately have "concat (map (\<lambda>(j, q). question_answers L (clock j) p q)
                     (zip [0 ..< length (Question r)] (Question r))) = []"
    by blast
  then show "snd (resolve L clock p r) = (False, None)"
    by (simp add: resolve_answers)
qed

text \<open>
  The cache of the run below holds a record whose name equals the question's name up to
  case, under a domain that is not configured.
\<close>

theorem resolve_falls_through_witness:
  "length (Question noQuestions) = 0
   \<and> snd (resolve sampleLibs (clockAt 100) strayPlugin noQuestions) = (False, None)
   \<and> EqualFold sampleLibs (Name (A_Hdr (hd (aClients strayPlugin))))
        (Question_Name (hd (Question otherQuery)))
   \<and> snd (resolve sampleLibs (clockAt 100) strayPlugin otherQuery) = (False, None)"
proof -
  have h1: "length (Question noQuestions) = 0"
    by (simp add: noQuestions_def)
  have r: "ran (map_of (Networks (Config strayPlugin))) = {str ''home.arpa.''}"
    by (simp add: strayPlugin_def stalePlugin_def freshPlugin_def sampleConfig_def)
  have "\<not> HasSuffix (ToLower sampleLibs (str ''Living-Room-TV.example.com.'')) (str ''home.arpa.'')"
    by code_simp
  then have h2: "\<forall>q \<in> set (Question otherQuery).
      \<forall>domain \<in> ran (map_of (Networks (Config strayPlugin))).
        \<not> HasSuffix (ToLower sampleLibs (Question_Name q)) domain"
    unfolding r by (simp add: otherQuery_def)
  have e: "EqualFold sampleLibs (Name (A_Hdr (hd (aClients strayPlugin))))
        (Question_Name (hd (Question otherQuery)))"
    by code_simp
  from resolve_falls_through [of noQuestions sampleLibs "clockAt 100" strayPlugin] h1
  have a: "snd (resolve sampleLibs (clockAt 100) strayPlugin noQuestions) = (False, None)"
    by blast
  from resolve_falls_through [of otherQuery sampleLibs "clockAt 100" strayPlugin] h2
  have b: "snd (resolve sampleLibs (clockAt 100) strayPlugin otherQuery) = (False, None)"
    by blast
  from h1 a e b show ?thesis by blast
qed

text \<open>
  When lower-casing is idempotent, a name that matches no configured domain once both
  are lower-cased matches none as configured either, so such a query falls through too.
\<close>

lemma HasSuffix_ToLower:
  assumes "\<forall>r. toLowerRune L (toLowerRune L r) = toLowerRune L r"
    and "HasSuffix (ToLower L name) domain"
  shows "HasSuffix (ToLower L name) (ToLower L domain)"
proof -
  from assms(2) obtain pre where pre: "ToLower L name = pre @ domain"
    unfolding HasSuffix_iff by blast
  then have "domain = drop (length pre) (map (toLowerRune L) name)"
    by (simp add: ToLower_def)
  then have "domain = map (toLowerRune L) (drop (length pre) name)"
    by (simp add: drop_map)
  then have "ToLower L domain = domain"
    using assms(1) by (simp add: ToLower_def)
  with assms(2) show ?thesis by simp
qed

lemma resolve_falls_through_caseless:
  assumes "\<forall>r. toLowerRune L (toLowerRune L r) = toLowerRune L r"
    and "\<And>q domain. q \<in> set (Question r) \<Longrightarrow> domain \<in> ran (map_of (Networks (Config p)))
           \<Longrightarrow> \<not> HasSuffix (ToLower L (Question_Name q)) (ToLower L domain)"
  shows "snd (resolve L clock p r) = (False, None)"
proof -
  have "question_answers L now p q = []" if "q \<in> set (Question r)" for q now
  proof -
    have "\<not> shouldHandle p (ToLower L (Question_Name q))"
      unfolding shouldHandle_iff using assms(2) [OF that] HasSuffix_ToLower [OF assms(1)]
      by blast
    then show ?thesis by (rule unhandled_no_answers)
  qed
  then have "concat (map (\<lambda>(j, q). question_answers L (clock j) p q) jqs) = []"
    if "snd ` set jqs \<subseteq> set (Question r)" for jqs
    using that by (induction jqs) auto
  moreover have "snd ` set (zip [0 ..< length (Question r)] (Question r)) \<subseteq> set (Question r)"
    by (auto dest: set_zip_rightD)
  ultimately show ?thesis
    by (simp add: resolve_answers)
qed

section \<open>Entries the snapshot builder skips\<close>

lemma getClients_entry_Config: "Config (getClients_entry L p entry) = Config p"
  by (simp add: getClients_entry_def Let_def split: option.splits)

lemma getClients_loop_Config: "Config (getClients_loop L clients p) = Config p"
  by (induction clients arbitrary: p) (simp_all add: getClients_entry_Config)

lemma getClients_loop_append:
  "getClients_loop L (xs @ ys) p = getClients_loop L ys (getClients_loop L xs p)"
  by (induction xs arbitrary: p) simp_all

lemma ToLower_Nil_iff: "ToLower L s = [] \<longleftrightarrow> s = []"
  by (simp add: ToLower_def)

lemma getClients_entry_skip:
  assumes "(if UseNameAsHostname (Config p) then Client_Name entry else Client_Hostname entry) = []
           \<or> sanitizeName L (if UseNameAsHostname (Config p) then Client_Name entry
                               else Client_Hostname entry) = []
           \<or> ParseIP L (Client_IP entry) = None
           \<or> map_of (Networks (Config p)) (ToLower L (Client_Network entry)) = None"
  shows "getClients_entry L p entry = p"
  using assms
  by (auto simp: getClients_entry_def Let_def ToLower_Nil_iff split: option.splits)

text \<open>
  C6: an entry whose selected name field is empty, or whose sanitized name is empty, or
  whose IP does not parse, or whose lower-cased network has no configured domain, adds
  nothing: the loop body leaves the state as it was, and the snapshot built from a client
  list holding the entry is the snapshot built from the list without it.  With the
  hostname selected, an entry with an empty hostname is skipped whatever its name is.
\<close>

theorem getClients_skips_entry:
  assumes "NewUnifi u = Inr uni" and "GetSites u = Inr sites"
    and "GetClients u sites = Inr (xs @ entry # ys)"
    and "(if UseNameAsHostname (Config p) then Client_Name entry else Client_Hostname entry) = []
         \<or> sanitizeName L (if UseNameAsHostname (Config p) then Client_Name entry
                             else Client_Hostname entry) = []
         \<or> ParseIP L (Client_IP entry) = None
         \<or> map_of (Networks (Config p)) (ToLower L (Client_Network entry)) = None"
  shows "getClients_entry L p entry = p
         \<and> getClients L u p =
             (None, getClients_loop L (xs @ ys) (p\<lparr>aClients := [], aaaaClients := []\<rparr>))"
proof
  show "getClients_entry L p entry = p"
    using assms(4) by (rule getClients_entry_skip)
next
  let ?p0 = "p\<lparr>aClients := [], aaaaClients := []\<rparr>"
  let ?q = "getClients_loop L xs ?p0"
  have "Config ?q = Config p" by (simp add: getClients_loop_Config)
  with assms(4) have "getClients_entry L ?q entry = ?q"
    using getClients_entry_skip [of ?q entry L] by simp
  then have "getClients_loop L (xs @ entry # ys) ?p0 = getClients_loop L (xs @ ys) ?p0"
    by (simp add: getClients_loop_append)
  with assms(1-3) show "getClients L u p = (None, getClients_loop L (xs @ ys) ?p0)"
    by (simp add: getClients_def)
qed

text \<open>
  A refresh over four clients: the television, a printer with a name and no hostname, a
  camera with an unparseable IP and a phone on a network that is not configured.  Only
  the television is cached.
\<close>

theorem getClients_skips_entry_witness:
  "Client_Hostname printerClient = []
   \<and> Client_Name printerClient = str ''Printer''
   \<and> getClients_entry sampleLibs (freshPlugin (str ''home.arpa.'')) printerClient
       = freshPlugin (str ''home.arpa.'')
   \<and> getClients sampleLibs (sampleUpstream [tvClient, printerClient, cameraClient, guestClient])
        (freshPlugin (str ''home.arpa.''))
       = (None, (freshPlugin (str ''home.arpa.''))\<lparr>aClients := [tvRecord 0]\<rparr>)"
proof -
  let ?u = "sampleUpstream [tvClient, printerClient, cameraClient, guestClient]"
  let ?p = "freshPlugin (str ''home.arpa.'')"
  have up: "NewUnifi ?u = Inr ()" "GetSites ?u = Inr ()"
    "GetClients ?u () = Inr ([tvClient] @ printerClient # [cameraClient, guestClient])"
    by (simp_all add: sampleUpstream_def)
  have h: "Client_Hostname printerClient = []" "Client_Name printerClient = str ''Printer''"
    by (simp_all add: printerClient_def)
  have "UseNameAsHostname (Config ?p) = False"
    by (simp add: freshPlugin_def sampleConfig_def)
  with h have skip:
    "(if UseNameAsHostname (Config ?p) then Client_Name printerClient
      else Client_Hostname printerClient) = []
     \<or> sanitizeName sampleLibs (if UseNameAsHostname (Config ?p) then Client_Name printerClient
                               else Client_Hostname printerClient) = []
     \<or> ParseIP sampleLibs (Client_IP printerClient) = None
     \<or> map_of (Networks (Config ?p)) (ToLower sampleLibs (Client_Network printerClient)) = None"
    by simp
  have rest: "getClients_loop sampleLibs ([tvClient] @ [cameraClient, guestClient])
                (?p\<lparr>aClients := [], aaaaClients := []\<rparr>) = ?p\<lparr>aClients := [tvRecord 0]\<rparr>"
    by code_simp
  from getClients_skips_entry [OF up skip] h rest show ?thesis by simp
qed

section \<open>Failed refreshes\<close>

text \<open>
  C7: when creating the controller client, listing the sites or listing the clients
  fails, \<^verbatim>\<open>getClients\<close> returns an error and leaves the plugin state, and with it both
  record lists, exactly as it was; the background update built on it changes nothing.
\<close>

theorem getClients_failure_atomic:
  assumes "NewUnifi u = Inl e \<or> GetSites u = Inl e
           \<or> (\<exists>sites. GetSites u = Inr sites \<and> GetClients u sites = Inl e)"
  shows "fst (getClients L u p) \<noteq> None
         \<and> snd (getClients L u p) = p
         \<and> aClients (snd (getClients L u p)) = aClients p
         \<and> aaaaClients (snd (getClients L u p)) = aaaaClients p
         \<and> update L u now p = p"
proof -
  from assms have "fst (getClients L u p) \<noteq> None \<and> snd (getClients L u p) = p"
    by (auto simp: getClients_def split: sum.splits)
  then show ?thesis
    by (cases "getClients L u p") (auto simp: update_def)
qed

theorem getClients_failure_atomic_witness:
  "GetSites failingUpstream = Inl ''connection refused''
   \<and> fst (getClients sampleLibs failingUpstream stalePlugin) \<noteq> None
   \<and> snd (getClients sampleLibs failingUpstream stalePlugin) = stalePlugin
   \<and> aClients (snd (getClients sampleLibs failingUpstream stalePlugin)) = [tvRecord 0]
   \<and> aaaaClients (snd (getClients sampleLibs failingUpstream stalePlugin)) = []
   \<and> update sampleLibs failingUpstream 500000000000 stalePlugin = stalePlugin"
proof -
  have g: "GetSites failingUpstream = Inl ''connection refused''"
    by (simp add: failingUpstream_def)
  then have h: "NewUnifi failingUpstream = Inl ''connection refused''
      \<or> GetSites failingUpstream = Inl ''connection refused''
      \<or> (\<exists>sites. GetSites failingUpstream = Inr sites
            \<and> GetClients failingUpstream sites = Inl ''connection refused'')"
    by simp
  have c: "aClients stalePlugin = [tvRecord 0]" "aaaaClients stalePlugin = []"
    by (simp_all add: stalePlugin_def freshPlugin_def)
  from getClients_failure_atomic [OF h, of sampleLibs stalePlugin 500000000000] g c
  show ?thesis by simp
qed

text \<open>
  What a refresh does to \<open>lastUpdate\<close>: the background update sets it after a
  successful \<^verbatim>\<open>getClients\<close> only; \<^verbatim>\<open>Ready\<close> sets it whenever the plugin was not
  ready, whether \<^verbatim>\<open>getClients\<close> failed or not.
\<close>

lemma update_failure:
  "fst (getClients L u p) \<noteq> None \<Longrightarrow> lastUpdate (update L u now p) = lastUpdate (snd (getClients L u p))"
  by (cases "getClients L u p") (auto simp: update_def)

lemma getClients_lastUpdate: "lastUpdate (snd (getClients L u p)) = lastUpdate p"
proof -
  have e: "lastUpdate (getClients_entry L q entry) = lastUpdate q" for q entry
    by (simp add: getClients_entry_def Let_def split: option.splits)
  have "lastUpdate (getClients_loop L clients q) = lastUpdate q" for clients q
    by (induction clients arbitrary: q) (simp_all add: e)
  then show ?thesis
    by (simp add: getClients_def split: sum.splits)
qed

lemma update_lastUpdate:
  "lastUpdate (update L u now p) = (if fst (getClients L u p) = None then now else lastUpdate p)"
  using getClients_lastUpdate [of L u p]
  by (cases "getClients L u p") (auto simp: update_def)

lemma Ready_lastUpdate:
  "lastUpdate (fst (Ready L u now p)) = (if IsReady p then lastUpdate p else now)"
  by (cases "getClients L u p") (auto simp: Ready_def Let_def)

lemma Ready_IsReady: "snd (Ready L u now p) \<and> IsReady (fst (Ready L u now p))"
  by (cases "getClients L u p") (auto simp: Ready_def Let_def)

text \<open>
  C2: \<open>lastUpdate\<close> after a failed refresh, on one run.  The cache was refreshed
  at second 100 and the controller is now unreachable.  \<^verbatim>\<open>getClients\<close> returns an
  error, yet \<^verbatim>\<open>Ready\<close> at second 500 leaves \<open>lastUpdate\<close> at second 500 with the
  old records still cached; the background update over the same failure leaves
  \<open>lastUpdate\<close> at second 100.
\<close>

theorem Ready_failure_moves_lastUpdate:
  "lastUpdate stalePlugin = 100000000000
   \<and> fst (getClients sampleLibs failingUpstream stalePlugin)
       = Some (Annotate ''connection refused'' ''coredns-unifi-names: unable to get sites'')
   \<and> lastUpdate (fst (Ready sampleLibs failingUpstream 500000000000 stalePlugin)) = 500000000000
   \<and> aClients (fst (Ready sampleLibs failingUpstream 500000000000 stalePlugin)) = [tvRecord 0]
   \<and> lastUpdate (update sampleLibs failingUpstream 500000000000 stalePlugin) = 100000000000"
  by code_simp

section \<open>The first scenario\<close>

lemma equalFoldRune_refl: "equalFoldRune L a a"
  by (simp add: equalFoldRune_def)

lemma EqualFold_refl: "EqualFold L s s"
  by (induction s) (simp_all add: equalFoldRune_refl)

lemma ToLower_tv: "ToLower L (str ''living-room-tv'') = str ''living-room-tv''"
  by (simp add: ToLower_def toLowerRune_def str_def)

lemma ToLower_lan: "ToLower L (str ''lan'') = str ''lan''"
  by (simp add: ToLower_def toLowerRune_def str_def)

lemma ToLower_tv_query:
  "ToLower L (str ''living-room-tv.home.arpa.'') = str ''living-room-tv.home.arpa.''"
  by (simp add: ToLower_def toLowerRune_def str_def)

lemma tv_name: "str ''living-room-tv'' @ str ''.'' @ str ''home.arpa.'' = str ''living-room-tv.home.arpa.''"
  by (simp add: str_def)

lemma tv_suffix: "HasSuffix (str ''living-room-tv.home.arpa.'') (str ''home.arpa.'')"
  by (simp add: HasSuffix_def str_def)

lemma tv_no_suffix: "\<not> HasSuffix (str ''living-room-tv.home.arpa.'') (str ''home.arpa'')"
  by (simp add: HasSuffix_def str_def)

text \<open>
  C1, as amended: the configuration maps network \<^verbatim>\<open>lan\<close> to the domain
  \<^verbatim>\<open>home.arpa.\<close>, written with the final dot of the query name, with TTL 300 and the
  hostname selected; the controller returns the single client with hostname
  \<^verbatim>\<open>Living Room TV\<close>, IP \<^verbatim>\<open>192.168.1.20\<close> and network \<^verbatim>\<open>lan\<close>; the IP parses to an
  address whose four-byte form is 192.168.1.20 and the FQDN check rejects
  \<^verbatim>\<open>living-room-tv\<close>.  After one refresh at time \<open>t\<close>, the type-A query for
  \<^verbatim>\<open>living-room-tv.home.arpa.\<close> is answered with exactly one A record, which carries that
  address and the TTL 300 less the seconds since \<open>t\<close>.
\<close>

theorem scenario1_answered:
  assumes cfg: "TTL (Config p) = 300" "UseNameAsHostname (Config p) = False"
      "Networks (Config p) = [(str ''lan'', str ''home.arpa.'')]"
    and up: "NewUnifi u = Inr uni" "GetSites u = Inr sites" "GetClients u sites = Inr [entry]"
    and entry: "Client_Hostname entry = str ''Living Room TV''"
      "Client_IP entry = str ''192.168.1.20''" "Client_Network entry = str ''lan''"
    and libs: "ParseIP L (str ''192.168.1.20'') = Some ip" "To4 ip = Some [192, 168, 1, 20]"
      "IsFQDN L (str ''living-room-tv'') = False"
  shows "snd (resolve L clock (update L u t p) tvQuery) =
           (True, Some [RR_A \<lparr>A_Hdr = \<lparr>Name = str ''living-room-tv.home.arpa.'', Rrtype = TypeA,
                                        Class = ClassINET,
                                        Ttl = 300 - Seconds_uint32 (Sub (clock 0) t),
                                        Rdlength = 0\<rparr>,
                               A_A = ip\<rparr>])"
proof -
  let ?rec = "\<lparr>A_Hdr = \<lparr>Name = str ''living-room-tv.home.arpa.'', Rrtype = TypeA,
                          Class = ClassINET, Ttl = 0, Rdlength = 0\<rparr>, A_A = ip\<rparr>"
  let ?p0 = "p\<lparr>aClients := [], aaaaClients := []\<rparr>"
  have ne: "str ''Living Room TV'' \<noteq> []" "str ''living-room-tv'' \<noteq> []"
    by (simp_all add: str_def)
  have "getClients_entry L ?p0 entry = ?p0\<lparr>aClients := [?rec]\<rparr>"
    by (simp add: getClients_entry_def Let_def cfg entry libs ne sanitizeName_example
        ToLower_tv ToLower_lan tv_name)
  with up have "getClients L u p = (None, ?p0\<lparr>aClients := [?rec]\<rparr>)"
    by (simp add: getClients_def)
  then have upd: "update L u t p = ?p0\<lparr>aClients := [?rec], lastUpdate := t\<rparr>"
    by (simp add: update_def)
  have sh: "shouldHandle (update L u t p) (str ''living-room-tv.home.arpa.'')"
    by (simp add: upd shouldHandle_def domains_def cfg tv_suffix)
  have "question_answers L (clock 0) (update L u t p)
          \<lparr>Question_Name = str ''living-room-tv.home.arpa.'', Qtype = TypeA, Qclass = ClassINET\<rparr>
        = [RR_A (?rec\<lparr>A_Hdr := (A_Hdr ?rec)\<lparr>Ttl := 300 - Seconds_uint32 (Sub (clock 0) t)\<rparr>\<rparr>)]"
    using sh by (simp add: question_answers_def ToLower_tv_query upd EqualFold_refl cfg)
  then show ?thesis
    by (simp add: resolve_answers tvQuery_def)
qed

theorem scenario1_answered_witness:
  "ParseIP sampleLibs (str ''192.168.1.20'') = Some (A_A (tvRecord 200))
   \<and> To4 (A_A (tvRecord 200)) = Some [192, 168, 1, 20]
   \<and> IsFQDN sampleLibs (str ''living-room-tv'') = False
   \<and> snd (resolve sampleLibs (clockAt 100)
          (update sampleLibs (sampleUpstream [tvClient]) 0 (freshPlugin (str ''home.arpa.'')))
          tvQuery) = (True, Some [RR_A (tvRecord 200)])"
proof -
  have cfg: "TTL (Config (freshPlugin (str ''home.arpa.''))) = 300"
    "UseNameAsHostname (Config (freshPlugin (str ''home.arpa.''))) = False"
    "Networks (Config (freshPlugin (str ''home.arpa.''))) = [(str ''lan'', str ''home.arpa.'')]"
    by (simp_all add: freshPlugin_def sampleConfig_def)
  have up: "NewUnifi (sampleUpstream [tvClient]) = Inr ()"
    "GetSites (sampleUpstream [tvClient]) = Inr ()"
    "GetClients (sampleUpstream [tvClient]) () = Inr [tvClient]"
    by (simp_all add: sampleUpstream_def)
  have entry: "Client_Hostname tvClient = str ''Living Room TV''"
    "Client_IP tvClient = str ''192.168.1.20''" "Client_Network tvClient = str ''lan''"
    by (simp_all add: tvClient_def)
  have ip: "ParseIP sampleLibs (str ''192.168.1.20'') = Some (A_A (tvRecord 200))"
    by code_simp
  have to4: "To4 (A_A (tvRecord 200)) = Some [192, 168, 1, 20]"
    by code_simp
  have fq: "IsFQDN sampleLibs (str ''living-room-tv'') = False"
    by code_simp
  have ttl: "300 - Seconds_uint32 (Sub (clockAt 100 0) 0) = (200 :: 32 word)"
    by code_simp
  have "snd (resolve sampleLibs (clockAt 100)
          (update sampleLibs (sampleUpstream [tvClient]) 0 (freshPlugin (str ''home.arpa.'')))
          tvQuery) = (True, Some [RR_A (tvRecord 200)])"
    using scenario1_answered [OF cfg up entry ip to4 fq, of "clockAt 100" 0]
    by (simp add: ttl tvRecord_def)
  with ip to4 fq show ?thesis by simp
qed

text \<open>
  With the domain stored as \<^verbatim>\<open>home.arpa\<close>, the cached name is
  \<^verbatim>\<open>living-room-tv.home.arpa\<close> and the query name \<^verbatim>\<open>living-room-tv.home.arpa.\<close> does not
  end with the domain: the query is not answered, whatever the libraries, the clock and
  the cache are.
\<close>

lemma scenario1_literal_domain_any:
  assumes "Networks (Config p) = [(str ''lan'', str ''home.arpa'')]"
  shows "snd (resolve L clock p tvQuery) = (False, None)"
proof -
  have "\<not> shouldHandle p (str ''living-room-tv.home.arpa.'')"
    by (simp add: shouldHandle_def domains_def assms tv_no_suffix)
  then have "question_answers L (clock 0) p
          \<lparr>Question_Name = str ''living-room-tv.home.arpa.'', Qtype = TypeA, Qclass = ClassINET\<rparr> = []"
    by (simp add: question_answers_def ToLower_tv_query)
  then show ?thesis
    by (simp add: resolve_answers tvQuery_def)
qed

text \<open>
  C1 with the domain stored as \<^verbatim>\<open>home.arpa\<close>: the scenario's refresh and query,
  run on the sample collaborators.  The query is not answered.
\<close>

theorem scenario1_literal_domain_unanswered:
  "snd (resolve sampleLibs (clockAt 100)
          (update sampleLibs (sampleUpstream [tvClient]) 0 (freshPlugin (str ''home.arpa'')))
          tvQuery) = (False, None)"
  by code_simp

section \<open>The TTL of an answer\<close>

text \<open>
  A question for a served name that the cache holds gets one record, the first match,
  and no question gets more than one.  The TTL is the configured TTL less the whole
  seconds since \<open>lastUpdate\<close>, in 32-bit arithmetic: at most the configured TTL while
  the cache is no older than that, and above it once the cache is older.
\<close>

lemma question_answers_present_A:
  assumes "Qclass q = ClassINET" and "Qtype q = TypeA"
    and "shouldHandle p (ToLower L (Question_Name q))"
    and "find (\<lambda>c. EqualFold L (Name (A_Hdr c)) (Question_Name q)) (aClients p) = Some c"
  shows "question_answers L now p q =
           [RR_A (c\<lparr>A_Hdr := (A_Hdr c)
              \<lparr>Ttl := TTL (Config p) - Seconds_uint32 (Sub now (lastUpdate p))\<rparr>\<rparr>)]"
  using assms by (simp add: question_answers_def)

lemma question_answers_present_AAAA:
  assumes "Qclass q = ClassINET" and "Qtype q = TypeAAAA"
    and "shouldHandle p (ToLower L (Question_Name q))"
    and "find (\<lambda>c. EqualFold L (Name (AAAA_Hdr c)) (Question_Name q)) (aaaaClients p) = Some c"
  shows "question_answers L now p q =
           [RR_AAAA (c\<lparr>AAAA_Hdr := (AAAA_Hdr c)
              \<lparr>Ttl := TTL (Config p) - Seconds_uint32 (Sub now (lastUpdate p))\<rparr>\<rparr>)]"
  using assms TypeA_neq_TypeAAAA by (simp add: question_answers_def)

lemma find_present:
  "(\<exists>c \<in> set cs. P c) \<Longrightarrow> \<exists>c. find P cs = Some c \<and> P c"
  by (induction cs) auto

lemma question_answers_at_most_one: "length (question_answers L now p q) \<le> 1"
  by (simp add: question_answers_def split: option.splits)

lemma resolve_present_A:
  assumes "Qclass q = ClassINET" and "Qtype q = TypeA"
    and "shouldHandle p (ToLower L (Question_Name q))"
    and "\<exists>c \<in> set (aClients p). EqualFold L (Name (A_Hdr c)) (Question_Name q)"
  shows "\<exists>c. find (\<lambda>c. EqualFold L (Name (A_Hdr c)) (Question_Name q)) (aClients p) = Some c
           \<and> snd (resolve L clock p \<lparr>Question = [q]\<rparr>) =
               (True, Some [RR_A (c\<lparr>A_Hdr := (A_Hdr c)
                  \<lparr>Ttl := TTL (Config p) - Seconds_uint32 (Sub (clock 0) (lastUpdate p))\<rparr>\<rparr>)])"
proof -
  from find_present [OF assms(4)] obtain c
    where c: "find (\<lambda>c. EqualFold L (Name (A_Hdr c)) (Question_Name q)) (aClients p) = Some c"
    by blast
  have "question_answers L (clock 0) p q =
          [RR_A (c\<lparr>A_Hdr := (A_Hdr c)
             \<lparr>Ttl := TTL (Config p) - Seconds_uint32 (Sub (clock 0) (lastUpdate p))\<rparr>\<rparr>)]"
    using assms(1-3) c by (rule question_answers_present_A)
  then have "snd (resolve L clock p \<lparr>Question = [q]\<rparr>) =
               (True, Some [RR_A (c\<lparr>A_Hdr := (A_Hdr c)
                  \<lparr>Ttl := TTL (Config p) - Seconds_uint32 (Sub (clock 0) (lastUpdate p))\<rparr>\<rparr>)])"
    by (simp add: resolve_answers)
  with c show ?thesis by blast
qed

lemma resolve_present_AAAA:
  assumes "Qclass q = ClassINET" and "Qtype q = TypeAAAA"
    and "shouldHandle p (ToLower L (Question_Name q))"
    and "\<exists>c \<in> set (aaaaClients p). EqualFold L (Name (AAAA_Hdr c)) (Question_Name q)"
  shows "\<exists>c. find (\<lambda>c. EqualFold L (Name (AAAA_Hdr c)) (Question_Name q)) (aaaaClients p) = Some c
           \<and> snd (resolve L clock p \<lparr>Question = [q]\<rparr>) =
               (True, Some [RR_AAAA (c\<lparr>AAAA_Hdr := (AAAA_Hdr c)
                  \<lparr>Ttl := TTL (Config p) - Seconds_uint32 (Sub (clock 0) (lastUpdate p))\<rparr>\<rparr>)])"
proof -
  from find_present [OF assms(4)] obtain c
    where c: "find (\<lambda>c. EqualFold L (Name (AAAA_Hdr c)) (Question_Name q)) (aaaaClients p) = Some c"
    by blast
  have "question_answers L (clock 0) p q =
          [RR_AAAA (c\<lparr>AAAA_Hdr := (AAAA_Hdr c)
             \<lparr>Ttl := TTL (Config p) - Seconds_uint32 (Sub (clock 0) (lastUpdate p))\<rparr>\<rparr>)]"
    using assms(1-3) c by (rule question_answers_present_AAAA)
  then have "snd (resolve L clock p \<lparr>Question = [q]\<rparr>) =
               (True, Some [RR_AAAA (c\<lparr>AAAA_Hdr := (AAAA_Hdr c)
                  \<lparr>Ttl := TTL (Config p) - Seconds_uint32 (Sub (clock 0) (lastUpdate p))\<rparr>\<rparr>)])"
    by (simp add: resolve_answers)
  with c show ?thesis by blast
qed

lemma ttl_stale:
  assumes "0 \<le> d" and "uint ttl < d div 1000000000" and "d div 1000000000 < 2 ^ 32"
  shows "ttl < ttl - Seconds_uint32 d"
proof -
  let ?k = "d div 1000000000"
  have k0: "0 \<le> ?k" using assms(1) by simp
  have uk: "uint (word_of_int ?k :: 32 word) = ?k"
    using k0 assms(3) by (simp add: uint_word_of_int take_bit_eq_mod)
  have s: "Seconds_uint32 d = word_of_int ?k"
    using assms(1) by (simp add: Seconds_uint32_def)
  have "uint (ttl - word_of_int ?k) = (uint ttl - ?k) mod 2 ^ 32"
    using uk by (simp add: uint_word_ariths)
  also have "\<dots> = uint ttl - ?k + 2 ^ 32"
  proof -
    have u0: "0 \<le> uint ttl" by simp
    have "0 \<le> uint ttl - ?k + 2 ^ 32" "uint ttl - ?k + 2 ^ 32 < 2 ^ 32"
      using assms(2,3) u0 by linarith+
    then have "(uint ttl - ?k + 2 ^ 32) mod 2 ^ 32 = uint ttl - ?k + 2 ^ 32"
      by (rule mod_pos_pos_trivial)
    then show ?thesis by simp
  qed
  finally have "uint ttl < uint (ttl - word_of_int ?k)"
    using assms(3) by simp
  then show ?thesis unfolding s by (simp add: word_less_def)
qed

lemma ttl_fresh:
  assumes "0 \<le> d" and "d div 1000000000 \<le> uint ttl"
  shows "uint (ttl - Seconds_uint32 d) = uint ttl - d div 1000000000"
    and "ttl - Seconds_uint32 d \<le> ttl"
proof -
  let ?k = "d div 1000000000"
  have k0: "0 \<le> ?k" using assms(1) by simp
  have "uint ttl < 2 ^ 32" using uint_bounded [of ttl] by simp
  with assms(2) have kb: "?k < 2 ^ 32" by linarith
  have uk: "uint (word_of_int ?k :: 32 word) = ?k"
    using k0 kb by (simp add: uint_word_of_int take_bit_eq_mod)
  have s: "Seconds_uint32 d = word_of_int ?k"
    using assms(1) by (simp add: Seconds_uint32_def)
  have le: "uint (word_of_int ?k :: 32 word) \<le> uint ttl" using uk assms(2) by simp
  then show "uint (ttl - Seconds_uint32 d) = uint ttl - d div 1000000000"
    unfolding s using uint_sub_lem [of "word_of_int ?k" ttl] uk by simp
  from le show "ttl - Seconds_uint32 d \<le> ttl"
    unfolding s by (simp add: word_le_def uint_sub_lem [THEN iffD1] uk k0)
qed

text \<open>
  C3: the TTL of an answer from a cache older than the configured TTL, on one run.
  TTL is 300; the cache is refreshed at second 100, the refresh at second 400 fails, and
  the query arrives at second 401, 301 seconds after \<open>lastUpdate\<close>.  The one answer
  carries the TTL 4294967295, which is above 300.
\<close>

theorem stale_cache_ttl_wraps:
  "update sampleLibs failingUpstream 400000000000
     (update sampleLibs (sampleUpstream [tvClient]) 100000000000 (freshPlugin (str ''home.arpa.'')))
     = stalePlugin
   \<and> TTL (Config stalePlugin) = 300
   \<and> snd (resolve sampleLibs (clockAt 401) stalePlugin tvQuery)
       = (True, Some [RR_A (tvRecord 4294967295)])
   \<and> (300 :: 32 word) < 4294967295"
  by code_simp

section \<open>Starting the refresh goroutine\<close>

text \<open>
  Goroutines that run the head of \<^verbatim>\<open>ServeDNS\<close> one after the other start one
  refresh goroutine.
\<close>

lemma ServeDNS_run_append:
  "ServeDNS_run (xs @ ys) s = ServeDNS_run ys (ServeDNS_run xs s)"
  by (induction xs arbitrary: s) simp_all

lemma ServeDNS_one_goroutine:
  assumes "pcs s g = AtLoad \<or> pcs s g = AtResolve"
  shows "ServeDNS_run [g, g, g] s =
           (if pcs s g = AtLoad \<and> \<not> haveRoutine s
            then s\<lparr>haveRoutine := True, routines := routines s + 1, pcs := (pcs s)(g := AtResolve)\<rparr>
            else s\<lparr>pcs := (pcs s)(g := AtResolve)\<rparr>)"
  using assms by (auto simp: ServeDNS_step_def fun_upd_idem)

lemma ServeDNS_sequential_inv:
  assumes "\<And>g. pcs s g = AtLoad \<or> pcs s g = AtResolve"
    and "routines s = (if haveRoutine s then 1 else 0)"
  shows "routines (ServeDNS_run (concat (map (\<lambda>g. [g, g, g]) gs)) s)
           = (if haveRoutine s \<or> (\<exists>g \<in> set gs. pcs s g = AtLoad) then 1 else 0)"
  using assms
proof (induction gs arbitrary: s)
  case Nil
  then show ?case by simp
next
  case (Cons g gs)
  let ?s' = "ServeDNS_run [g, g, g] s"
  have one: "?s' = (if pcs s g = AtLoad \<and> \<not> haveRoutine s
            then s\<lparr>haveRoutine := True, routines := routines s + 1, pcs := (pcs s)(g := AtResolve)\<rparr>
            else s\<lparr>pcs := (pcs s)(g := AtResolve)\<rparr>)"
    using Cons.prems(1) [of g] by (rule ServeDNS_one_goroutine)
  have pcs': "pcs ?s' h = AtLoad \<or> pcs ?s' h = AtResolve" for h
    using Cons.prems(1) [of h] unfolding one by simp
  have r': "routines ?s' = (if haveRoutine ?s' then 1 else 0)"
    using Cons.prems(2) unfolding one by simp
  have "routines (ServeDNS_run (concat (map (\<lambda>g. [g, g, g]) (g # gs))) s)
        = routines (ServeDNS_run (concat (map (\<lambda>g. [g, g, g]) gs)) ?s')"
    by simp
  also have "\<dots> = (if haveRoutine ?s' \<or> (\<exists>h \<in> set gs. pcs ?s' h = AtLoad) then 1 else 0)"
    using pcs' r' by (rule Cons.IH)
  also have "\<dots> = (if haveRoutine s \<or> (\<exists>h \<in> set (g # gs). pcs s h = AtLoad) then 1 else 0)"
  proof (cases "haveRoutine s")
    case True
    then show ?thesis unfolding one by simp
  next
    case False
    show ?thesis
    proof (cases "pcs s g = AtLoad")
      case True
      with False show ?thesis unfolding one by simp
    next
      case ng: False
      with False have "(\<exists>h \<in> set gs. pcs ?s' h = AtLoad) = (\<exists>h \<in> set gs. pcs s h = AtLoad)"
        unfolding one by auto
      with False ng show ?thesis unfolding one by simp
    qed
  qed
  finally show ?case .
qed

lemma ServeDNS_sequential:
  "routines (ServeDNS_run (concat (map (\<lambda>g. [g, g, g]) gs)) idle) = (if gs = [] then 0 else 1)"
proof -
  have "routines (ServeDNS_run (concat (map (\<lambda>g. [g, g, g]) gs)) idle)
        = (if haveRoutine idle \<or> (\<exists>g \<in> set gs. pcs idle g = AtLoad) then 1 else 0)"
    by (rule ServeDNS_sequential_inv) (simp_all add: idle_def)
  also have "\<dots> = (if gs = [] then 0 else 1)"
    by (cases gs) (auto simp: idle_def)
  finally show ?thesis .
qed

text \<open>
  C10: two first queries served concurrently, on one schedule: both goroutines load the
  flag before either stores it, and each then starts a refresh goroutine, so two refresh
  goroutines run.
\<close>

theorem concurrent_first_queries_start_two_routines:
  "routines (ServeDNS_run [0, 1, 0, 0, 1, 1] idle) = 2"
  by code_simp

end
